theory Spec2Isabelle
  imports Complex_Main "HOL-Library.Log_Nat"
begin

section \<open>Numbers and errors\<close>

text \<open>
  The engine computes with Python's \<^verbatim>\<open>decimal.Decimal\<close> in the default context: every
  operation returns its exact result rounded to 28 significant digits, half to even. A
  Decimal is modelled by the rational number it denotes (\<^typ>\<open>rat\<close>). Python integers
  (\<^verbatim>\<open>side\<close>, \<^verbatim>\<open>leverage\<close>) are \<^typ>\<open>int\<close> and are embedded with \<^term>\<open>of_int\<close> where
  the code mixes them with Decimals.

  The methods of the position are embedded twice. The definitions of the section on
  the position leave the rounding out: each operation is the exact one on rationals.
  The matching engine is built on them, and they serve for what the rounding does not
  bear on: the branch an order takes, what a step leaves unchanged, the invariant of
  the position. The definitions of the section on the position in the decimal context
  round every operation as the context does, and the numeric properties of
  \<^verbatim>\<open>increase\<close>, \<^verbatim>\<open>decrease\<close>, \<^verbatim>\<open>margin\<close> and \<^verbatim>\<open>liquidation_price\<close> are stated of them.

  Exceptions are values. \<^verbatim>\<open>assert\<close> raises \<^verbatim>\<open>AssertionError\<close>; a Decimal division by
  zero raises \<^verbatim>\<open>DivisionByZero\<close>, and \<^verbatim>\<open>0 / 0\<close> raises \<^verbatim>\<open>InvalidOperation\<close>.
\<close>

datatype error = AssertionError | DivisionByZero | InvalidOperation

definition dec_div :: "rat \<Rightarrow> rat \<Rightarrow> error + rat" where
  "dec_div a b =
     (if b = 0 then (if a = 0 then Inl InvalidOperation else Inl DivisionByZero)
      else Inr (a / b))"

text \<open>
  \<^verbatim>\<open>Decimal.quantize\<close> to a given number of decimal places, with the default rounding
  mode of the decimal context, \<^verbatim>\<open>ROUND_HALF_EVEN\<close>.
\<close>

definition round_half_even :: "rat \<Rightarrow> int" where
  "round_half_even x =
     (let f = \<lfloor>x\<rfloor>; d = x - of_int f
      in if d < 1 / 2 then f
         else if 1 / 2 < d then f + 1
         else if even f then f else f + 1)"

definition quantize :: "nat \<Rightarrow> rat \<Rightarrow> rat" where
  "quantize places x = of_int (round_half_even (x * 10 ^ places)) / 10 ^ places"

section \<open>Decimal arithmetic in the default context\<close>

text \<open>
  The adjusted exponent of a number \<open>x \<noteq> 0\<close>: the integer \<open>e\<close> with
  \<open>10\<^sup>e \<le> \<bar>x\<bar> < 10\<^sup>e\<^sup>+\<^sup>1\<close>, computed from the number of decimal digits of an integer.
\<close>

definition adjusted :: "rat \<Rightarrow> int" where
  "adjusted x =
     (let a = \<bar>x\<bar>
      in if 1 \<le> a then int (floorlog 10 (nat \<lfloor>a\<rfloor>)) - 1
         else - int (floorlog 10 (nat (\<lceil>1 / a\<rceil> - 1))))"

text \<open>
  The rounding of the default context, \<^verbatim>\<open>prec = 28\<close> and \<^verbatim>\<open>ROUND_HALF_EVEN\<close>: the
  nearest multiple of \<open>10\<^sup>e\<^sup>-\<^sup>2\<^sup>7\<close>, with \<open>e\<close> the adjusted exponent. The exponent limits of
  the context (\<open>10\<close> to the power of plus or minus 999999) are left out.
\<close>

definition round28 :: "rat \<Rightarrow> rat" where
  "round28 x =
     (if x = 0 then 0
      else let q = 10 powi (adjusted x - 27)
           in of_int (round_half_even (x / q)) * q)"

text \<open>A rounding changes a number by at most this fraction of its size.\<close>

definition unit_roundoff :: rat where
  "unit_roundoff = 5 / 10 ^ 28"

definition exact28 :: "rat \<Rightarrow> bool" where
  "exact28 x \<longleftrightarrow> round28 x = x"

text \<open>The operations of \<^verbatim>\<open>Decimal\<close>: the exact result, rounded.\<close>

definition add28 :: "rat \<Rightarrow> rat \<Rightarrow> rat" where
  "add28 a b = round28 (a + b)"

definition sub28 :: "rat \<Rightarrow> rat \<Rightarrow> rat" where
  "sub28 a b = round28 (a - b)"

definition mul28 :: "rat \<Rightarrow> rat \<Rightarrow> rat" where
  "mul28 a b = round28 (a * b)"

definition div28 :: "rat \<Rightarrow> rat \<Rightarrow> error + rat" where
  "div28 a b =
     (if b = 0 then (if a = 0 then Inl InvalidOperation else Inl DivisionByZero)
      else Inr (round28 (a / b)))"


section \<open>Position\<close>

text \<open>The methods with exact arithmetic: the rounding of the context is left out.\<close>

text \<open>
  \<^verbatim>\<open>class Position\<close>: \<^verbatim>\<open>side\<close> is 1 for Long, -1 for Short and 0 for none.
\<close>

record position =
  side :: int
  quantity :: rat
  entry_price :: rat
  leverage :: int

definition Position :: position where
  "Position = \<lparr>side = 0, quantity = 0, entry_price = 0, leverage = 1\<rparr>"

text \<open>\<^verbatim>\<open>set_leverage\<close> returns the leverage in force together with the updated position.\<close>

definition set_leverage :: "position \<Rightarrow> int \<Rightarrow> int \<times> position" where
  "set_leverage p l =
     (let p' = (if side p = 0 then p\<lparr>leverage := l\<rparr> else p)
      in (leverage p', p'))"

text \<open>\<^verbatim>\<open>increase\<close> always returns \<^verbatim>\<open>True\<close>; the model returns the mutated position.\<close>

definition increase :: "position \<Rightarrow> rat \<Rightarrow> rat \<Rightarrow> error + position" where
  "increase p qty price =
     (if \<not> 0 < qty then Inl AssertionError
      else if \<not> 0 < price then Inl AssertionError
      else case dec_div (quantity p * entry_price p + qty * price) (quantity p + qty) of
             Inl e \<Rightarrow> Inl e
           | Inr ep \<Rightarrow> Inr (p\<lparr>entry_price := ep, quantity := quantity p + qty\<rparr>))"

text \<open>
  \<^verbatim>\<open>decrease\<close> returns the pair \<^verbatim>\<open>(initial, pnl)\<close>, computed with the entry price and
  the side the position had before the call, and the mutated position.
\<close>

definition decrease :: "position \<Rightarrow> rat \<Rightarrow> rat \<Rightarrow> error + ((rat \<times> rat) \<times> position)" where
  "decrease p qty price =
     (if \<not> (0 < qty \<and> qty \<le> quantity p) then Inl AssertionError
      else if \<not> 0 < price then Inl AssertionError
      else
        let p1 = p\<lparr>quantity := quantity p - qty\<rparr>;
            initial = qty * entry_price p1;
            pl = of_int (side p1) * qty * (price - entry_price p1);
            p2 = (if quantity p1 = 0 then p1\<lparr>side := 0, entry_price := 0\<rparr> else p1)
        in Inr ((initial, pl), p2))"

definition pnl :: "position \<Rightarrow> rat \<Rightarrow> rat" where
  "pnl p price = of_int (side p) * quantity p * (price - entry_price p)"

definition "value" :: "position \<Rightarrow> rat \<Rightarrow> rat \<Rightarrow> error + rat" where
  "value p price fee_rate =
     (let fee = (quantity p * entry_price p + pnl p price) * fee_rate
      in case dec_div (quantity p * entry_price p) (of_int (leverage p)) of
           Inl e \<Rightarrow> Inl e
         | Inr m \<Rightarrow> Inr (m + pnl p price - fee))"

definition liquidation_price :: "position \<Rightarrow> rat \<Rightarrow> error + rat" where
  "liquidation_price p fee_rate =
     (case dec_div (of_int (side p) * entry_price p) (of_int (leverage p)) of
        Inl e \<Rightarrow> Inl e
      | Inr d \<Rightarrow>
          (let liq = entry_price p - d;
               fee = liq * quantity p * fee_rate
           in Inr (liq + of_int (side p) * fee)))"

section \<open>The position in the decimal context\<close>

text \<open>
  The methods of \<^verbatim>\<open>class Position\<close> with every Decimal operation rounded as the default
  context rounds it, in the order Python evaluates the expressions. An \<^verbatim>\<open>int\<close> operand
  (\<^verbatim>\<open>side\<close>, \<^verbatim>\<open>leverage\<close>, \<^verbatim>\<open>100\<close>) is converted exactly, and the result of the
  operation is rounded.
\<close>

definition increase28 :: "position \<Rightarrow> rat \<Rightarrow> rat \<Rightarrow> error + position" where
  "increase28 p qty price =
     (if \<not> 0 < qty then Inl AssertionError
      else if \<not> 0 < price then Inl AssertionError
      else case div28 (add28 (mul28 (quantity p) (entry_price p)) (mul28 qty price))
                  (add28 (quantity p) qty) of
             Inl e \<Rightarrow> Inl e
           | Inr ep \<Rightarrow> Inr (p\<lparr>entry_price := ep, quantity := add28 (quantity p) qty\<rparr>))"

definition decrease28 :: "position \<Rightarrow> rat \<Rightarrow> rat \<Rightarrow> error + ((rat \<times> rat) \<times> position)" where
  "decrease28 p qty price =
     (if \<not> (0 < qty \<and> qty \<le> quantity p) then Inl AssertionError
      else if \<not> 0 < price then Inl AssertionError
      else
        let p1 = p\<lparr>quantity := sub28 (quantity p) qty\<rparr>;
            initial = mul28 qty (entry_price p1);
            pl = mul28 (mul28 (of_int (side p1)) qty) (sub28 price (entry_price p1));
            p2 = (if quantity p1 = 0 then p1\<lparr>side := 0, entry_price := 0\<rparr> else p1)
        in Inr ((initial, pl), p2))"

definition pnl28 :: "position \<Rightarrow> rat \<Rightarrow> rat" where
  "pnl28 p price =
     mul28 (mul28 (of_int (side p)) (quantity p)) (sub28 price (entry_price p))"


definition value28 :: "position \<Rightarrow> rat \<Rightarrow> rat \<Rightarrow> error + rat" where
  "value28 p price fr =
     (let fee = mul28 (add28 (mul28 (quantity p) (entry_price p)) (pnl28 p price)) fr
      in case div28 (mul28 (quantity p) (entry_price p)) (of_int (leverage p)) of
           Inl e \<Rightarrow> Inl e
         | Inr m \<Rightarrow> Inr (sub28 (add28 m (pnl28 p price)) fee))"


text \<open>
  A sequence of calls \<^verbatim>\<open>increase(qty, price)\<close> on one position, given as the list of
  their arguments; it stops at the first call that raises.
\<close>

fun increase_all28 :: "position \<Rightarrow> (rat \<times> rat) list \<Rightarrow> error + position" where
  "increase_all28 p [] = Inr p"
| "increase_all28 p ((qty, price) # calls) =
     (case increase28 p qty price of
        Inl e \<Rightarrow> Inl e
      | Inr p' \<Rightarrow> increase_all28 p' calls)"

text \<open>
  The factors by which the five roundings of one \<^verbatim>\<open>increase\<close> can move the entry price
  below and above the exact weighted average.
\<close>

definition lo_factor :: rat where
  "lo_factor = (1 - unit_roundoff) ^ 3 / (1 + unit_roundoff)"

definition hi_factor :: rat where
  "hi_factor = (1 + unit_roundoff) ^ 3 / (1 - unit_roundoff)"



section \<open>Orders and the server\<close>

text \<open>
  An order is the dictionary the client stores: its side (the client upper-cases it;
  \<open>OTHER\<close> stands for any string that is neither \<^verbatim>\<open>BUY\<close> nor \<^verbatim>\<open>SELL\<close>), its
  quantity, its optional limit price (\<^verbatim>\<open>None\<close> for a market order) and the id the server
  assigns. The price is the Decimal that \<^verbatim>\<open>check_orders\<close> makes of the stored number,
  \<^verbatim>\<open>Decimal(order["price"])\<close>: for a float, the exact value of the float.
  \<^verbatim>\<open>process_orders\<close> converts the same stored number with \<^verbatim>\<open>Decimal(str(...))\<close>, and
  \<open>execution_price\<close> below takes that to be the same number. It is the same for an
  \<^verbatim>\<open>int\<close> and for a float that is a short decimal and a binary fraction at once
  (\<^verbatim>\<open>100.5\<close>); it is not for a float such as \<^verbatim>\<open>100.1\<close>.
\<close>

datatype order_side = BUY | SELL | OTHER

record order =
  o_side :: order_side
  o_quantity :: rat
  o_price :: "rat option"
  o_id :: nat

text \<open>
  The server's attributes, with the part of the database document the engine reads:
  the list \<^verbatim>\<open>orders\<close> and the requested \<^verbatim>\<open>leverage\<close>.
\<close>

record server =
  balance :: rat
  position :: position
  fee_rate :: rat
  unit :: rat
  orders :: "order list"
  db_leverage :: int

text \<open>\<^verbatim>\<open>Server.__init__\<close>: the attributes and the first database document.\<close>

definition Server :: "int \<Rightarrow> rat \<Rightarrow> server" where
  "Server b f =
     \<lparr>balance = of_int b, position = Position, fee_rate = quantize 4 f, unit = 1,
      orders = [], db_leverage = 1\<rparr>"

text \<open>
  \<^verbatim>\<open>last_price\<close>: the tick price is the close price \<^verbatim>\<open>c\<close> of the ticker message,
  quantized to one decimal place.
\<close>

definition last_price :: "rat \<Rightarrow> rat" where
  "last_price c = quantize 1 c"

text \<open>\<^verbatim>\<open>check_orders\<close>: the loop appends the orders to process in queue order.\<close>

fun check_orders :: "order list \<Rightarrow> rat \<Rightarrow> order list" where
  "check_orders [] price = []"
| "check_orders (order # rest) price =
     (case o_price order of
        None \<Rightarrow> order # check_orders rest price
      | Some order_price \<Rightarrow>
          if (o_side order = BUY \<and> order_price \<ge> price) \<or>
             (o_side order = SELL \<and> order_price \<le> price)
          then order # check_orders rest price
          else check_orders rest price)"

text \<open>
  Lines 237 to 241 of \<^verbatim>\<open>process_orders\<close>: the price an order executes at. The test
  \<^verbatim>\<open>if order.get("price")\<close> is false for a missing price and for a price of zero.
\<close>

definition execution_price :: "order \<Rightarrow> rat \<Rightarrow> rat" where
  "execution_price order price =
     (case o_price order of
        None \<Rightarrow> price
      | Some order_price \<Rightarrow>
          if order_price = 0 then price
          else if (o_side order = BUY \<and> price > order_price) \<or>
                  (o_side order = SELL \<and> price < order_price)
          then order_price else price)"

text \<open>The test of line 252: the order opens or increases the position.\<close>

definition opens :: "order_side \<Rightarrow> position \<Rightarrow> bool" where
  "opens sd p \<longleftrightarrow>
     (sd = BUY \<and> side p \<in> {0, 1}) \<or> (sd = SELL \<and> side p \<in> {-1, 0})"

text \<open>\<^verbatim>\<open>orders.remove(order)\<close> followed by the write of the list to the database.\<close>

definition drop_order :: "server \<Rightarrow> order \<Rightarrow> server" where
  "drop_order s order = s\<lparr>orders := remove1 order (orders s)\<rparr>"

text \<open>
  The three branches of the loop body of \<^verbatim>\<open>process_orders\<close>, named by the comments
  that head them in the source. Each takes the state after \<^verbatim>\<open>set_leverage\<close>, the
  order, the execution price and the leverage in force.
\<close>

definition open_or_increase :: "server \<Rightarrow> order \<Rightarrow> rat \<Rightarrow> int \<Rightarrow> error + (bool \<times> server)" where
  "open_or_increase s order price lev =
     (let qty = o_quantity order;
          fee = qty * price * fee_rate s
      in case dec_div (qty * price) (of_int lev) of
           Inl e \<Rightarrow> Inl e
         | Inr m \<Rightarrow>
             (let cost = m + fee in
              if balance s \<ge> cost then
                (case increase ((position s)\<lparr>side := (if o_side order = BUY then 1 else -1)\<rparr>)
                        qty price of
                   Inl e \<Rightarrow> Inl e
                 | Inr pos' \<Rightarrow>
                     Inr (True,
                          drop_order (s\<lparr>balance := balance s - cost, position := pos'\<rparr>) order))
              else Inr (False, drop_order s order)))"

definition close_or_decrease :: "server \<Rightarrow> order \<Rightarrow> rat \<Rightarrow> int \<Rightarrow> error + (bool \<times> server)" where
  "close_or_decrease s order price lev =
     (case decrease (position s) (o_quantity order) price of
        Inl e \<Rightarrow> Inl e
      | Inr ((initial, pl), pos') \<Rightarrow>
          (let fee = (initial + pl) * fee_rate s in
           (case dec_div initial (of_int lev) of
              Inl e \<Rightarrow> Inl e
            | Inr m \<Rightarrow>
                Inr (True,
                     drop_order (s\<lparr>balance := balance s + (m + pl - fee), position := pos'\<rparr>)
                       order))))"

text \<open>The part of the third branch that runs once the reversal is found affordable.\<close>

definition reverse_position :: "server \<Rightarrow> order \<Rightarrow> rat \<Rightarrow> int \<Rightarrow> rat \<Rightarrow> rat \<Rightarrow> error + (bool \<times> server)" where
  "reverse_position s order price lev remaining cost =
     (case decrease (position s) (quantity (position s)) price of
        Inl e \<Rightarrow> Inl e
      | Inr ((initial, pl), pos1) \<Rightarrow>
          (let fee = (initial + pl) * fee_rate s in
           (case dec_div initial (of_int lev) of
              Inl e \<Rightarrow> Inl e
            | Inr m \<Rightarrow>
                (let balance1 = balance s + (m + pl - fee);
                     balance2 = balance1 - cost
                 in (case increase (pos1\<lparr>side := (if o_side order = BUY then 1 else -1)\<rparr>)
                            remaining price of
                       Inl e \<Rightarrow> Inl e
                     | Inr pos2 \<Rightarrow>
                         Inr (True,
                              drop_order (s\<lparr>balance := balance2, position := pos2\<rparr>) order))))))"

definition close_and_reverse :: "server \<Rightarrow> order \<Rightarrow> rat \<Rightarrow> int \<Rightarrow> error + (bool \<times> server)" where
  "close_and_reverse s order price lev =
     (let remaining = o_quantity order - quantity (position s);
          fee = remaining * price * fee_rate s
      in case dec_div (remaining * price) (of_int lev) of
           Inl e \<Rightarrow> Inl e
         | Inr m \<Rightarrow>
             (let cost = m + fee in
              (case value (position s) price (fee_rate s) of
                 Inl e \<Rightarrow> Inl e
               | Inr v \<Rightarrow>
                   (let total_balance = balance s + v in
                    if total_balance \<ge> cost
                    then reverse_position s order price lev remaining cost
                    else Inr (False, drop_order s order)))))"

text \<open>
  The body of the loop of \<^verbatim>\<open>process_orders\<close>, for one order. \<^verbatim>\<open>Server.set_leverage\<close>
  hands the leverage requested in the database to \<^verbatim>\<open>Position.set_leverage\<close>. Every path
  through the body returns, with \<^verbatim>\<open>True\<close> (processed) or \<^verbatim>\<open>False\<close> (not processed).
\<close>

definition process_order :: "server \<Rightarrow> order \<Rightarrow> rat \<Rightarrow> error + (bool \<times> server)" where
  "process_order s order tick =
     (let price = execution_price order tick;
          (lev, pos) = set_leverage (position s) (db_leverage s);
          s1 = s\<lparr>position := pos\<rparr>
      in case dec_div (o_quantity order * price) (of_int lev) of
           Inl e \<Rightarrow> Inl e
         | Inr notional \<Rightarrow>
             if notional < unit s1 then Inr (False, drop_order s1 order)
             else if opens (o_side order) pos then open_or_increase s1 order price lev
             else if quantity pos \<ge> o_quantity order then close_or_decrease s1 order price lev
             else close_and_reverse s1 order price lev)"

text \<open>
  \<^verbatim>\<open>process_orders\<close>: since every path through the loop body returns, only the first
  order that \<^verbatim>\<open>check_orders\<close> selects is processed. With nothing to process the loop
  body never runs and the function returns \<^verbatim>\<open>None\<close>.
\<close>

definition process_orders :: "server \<Rightarrow> rat \<Rightarrow> error + (bool option \<times> server)" where
  "process_orders s price =
     (case check_orders (orders s) price of
        [] \<Rightarrow> Inr (None, s)
      | order # _ \<Rightarrow>
          (case process_order s order price of
             Inl e \<Rightarrow> Inl e
           | Inr (b, s') \<Rightarrow> Inr (Some b, s')))"

definition liquidation_check :: "server \<Rightarrow> rat \<Rightarrow> error + (bool \<times> server)" where
  "liquidation_check s price =
     (case liquidation_price (position s) (fee_rate s) of
        Inl e \<Rightarrow> Inl e
      | Inr liq \<Rightarrow>
          if (side (position s) = 1 \<and> price \<le> liq) \<or>
             (side (position s) = -1 \<and> price \<ge> liq)
          then
            (case decrease (position s) (quantity (position s)) price of
               Inl e \<Rightarrow> Inl e
             | Inr (_, pos') \<Rightarrow> Inr (True, s\<lparr>position := pos'\<rparr>))
          else Inr (False, s))"

section \<open>The eligibility filter as the specification words it\<close>

text \<open>
  A market order (no limit price) is always eligible; a limit Buy is eligible when
  \<open>price \<le> limitPrice\<close>, a limit Sell when \<open>price \<ge> limitPrice\<close>.
\<close>

definition spec_eligible :: "rat \<Rightarrow> order \<Rightarrow> bool" where
  "spec_eligible price order =
     (case o_price order of
        None \<Rightarrow> True
      | Some limit_price \<Rightarrow>
          (o_side order = BUY \<and> price \<le> limit_price) \<or>
          (o_side order = SELL \<and> price \<ge> limit_price))"

section \<open>Reachable states\<close>

text \<open>
  The states the engine can be in. It starts as \<^verbatim>\<open>Server.__init__\<close> leaves it; between
  two steps of the engine the client may rewrite the order queue and the requested
  leverage in the database in any way; the tick loop runs \<^verbatim>\<open>liquidation_check\<close> and
  \<^verbatim>\<open>process_orders\<close>, at any price, and goes on only when they return.
\<close>

inductive reachable :: "server \<Rightarrow> bool" where
  start: "reachable (Server b f)"
| client: "reachable s \<Longrightarrow> reachable (s\<lparr>orders := os, db_leverage := l\<rparr>)"
| liquidation: "reachable s \<Longrightarrow> liquidation_check s price = Inr (b, s') \<Longrightarrow> reachable s'"
| matching: "reachable s \<Longrightarrow> process_orders s price = Inr (r, s') \<Longrightarrow> reachable s'"

text \<open>
  The invariant of the position, with the signs that make it inductive: quantity and
  entry price are never negative.
\<close>

definition pos_ok :: "position \<Rightarrow> bool" where
  "pos_ok p \<longleftrightarrow>
     0 \<le> quantity p \<and> 0 \<le> entry_price p \<and>
     (quantity p = 0 \<longleftrightarrow> side p = 0) \<and> (side p = 0 \<longleftrightarrow> entry_price p = 0)"

section \<open>Rounding to 28 digits\<close>

lemma round_half_even_error: "\<bar>of_int (round_half_even y) - y\<bar> \<le> 1 / 2"
proof -
  have "of_int \<lfloor>y\<rfloor> \<le> y" "y < of_int \<lfloor>y\<rfloor> + 1" by linarith+
  then show ?thesis
    by (auto simp: round_half_even_def Let_def)
qed

lemma round_half_even_of_int [simp]: "round_half_even (of_int n) = n"
  by (simp add: round_half_even_def)

lemma round_half_even_eqI:
  assumes "\<bar>y - of_int n\<bar> < 1 / 2"
  shows "round_half_even y = n"
proof -
  have "\<bar>of_int (round_half_even y) - y\<bar> \<le> 1 / 2" by (rule round_half_even_error)
  with assms have "\<bar>(of_int (round_half_even y) :: rat) - of_int n\<bar> < 1" by linarith
  then have "\<bar>round_half_even y - n\<bar> < 1"
    by (metis of_int_abs of_int_diff of_int_less_1_iff)
  then show ?thesis by linarith
qed

lemma adjusted_ge1:
  assumes "1 \<le> a"
  shows "10 powi (int (floorlog 10 (nat \<lfloor>a\<rfloor>)) - 1) \<le> (a::rat)"
    and "a < 10 powi (int (floorlog 10 (nat \<lfloor>a\<rfloor>)) - 1 + 1)"
proof -
  let ?n = "nat \<lfloor>a\<rfloor>"
  let ?f = "floorlog 10 ?n"
  have n: "0 < ?n" using assms by simp
  from floorlog_bounds [of ?n 10] n
  have b: "10 ^ (?f - 1) \<le> ?n" "?n < 10 ^ ?f" by simp_all
  have f: "1 \<le> ?f" using b(2) n by (cases ?f) simp_all
  have na: "(of_nat ?n :: rat) \<le> a"
    using assms by (simp add: of_nat_nat)
  have an: "a < of_nat ?n + 1"
    using assms by (simp add: of_nat_nat) linarith
  have "(10::rat) powi (int ?f - 1) = 10 ^ (?f - 1)"
    using f by (simp add: power_int_def nat_diff_distrib' of_nat_diff)
  also have "\<dots> = of_nat (10 ^ (?f - 1))" by simp
  also have "\<dots> \<le> of_nat ?n" using b(1) by (simp only: of_nat_le_iff)
  finally show "10 powi (int ?f - 1) \<le> a" using na by linarith
  have "Suc ?n \<le> 10 ^ ?f" using b(2) by (rule Suc_leI)
  then have "(of_nat (Suc ?n) :: rat) \<le> of_nat (10 ^ ?f)"
    by (simp only: of_nat_le_iff)
  then have "of_nat ?n + 1 \<le> (of_nat (10 ^ ?f) :: rat)"
    by (simp only: of_nat_Suc add.commute)
  then have "a < of_nat (10 ^ ?f)" using an by linarith
  then show "a < 10 powi (int ?f - 1 + 1)" by simp
qed

lemma adjusted_lt1:
  assumes "0 < a" and "a < 1"
  shows "10 powi (- int (floorlog 10 (nat (\<lceil>1 / a\<rceil> - 1)))) \<le> (a::rat)"
    and "a < 10 powi (- int (floorlog 10 (nat (\<lceil>1 / a\<rceil> - 1))) + 1)"
proof -
  let ?m = "nat (\<lceil>1 / a\<rceil> - 1)"
  let ?k = "floorlog 10 ?m"
  have inv: "1 < 1 / a" using assms by simp
  then have c2: "2 \<le> \<lceil>1 / a\<rceil>" by linarith
  then have m: "0 < ?m" by simp
  from floorlog_bounds [of ?m 10] m
  have b: "10 ^ (?k - 1) \<le> ?m" "?m < 10 ^ ?k" by simp_all
  have k: "1 \<le> ?k" using b(2) m by (cases ?k) simp_all
  have "0 \<le> \<lceil>1 / a\<rceil> - 1" using c2 by linarith
  then have "(of_nat ?m :: rat) = of_int (\<lceil>1 / a\<rceil> - 1)"
    by (rule of_nat_nat)
  then have mr: "(of_nat ?m :: rat) = of_int \<lceil>1 / a\<rceil> - 1"
    by (simp only: of_int_diff of_int_1)
  have lo: "(of_nat ?m :: rat) < 1 / a" unfolding mr by linarith
  have hi: "1 / a \<le> of_nat ?m + 1" unfolding mr by linarith
  have "Suc ?m \<le> 10 ^ ?k" using b(2) by (rule Suc_leI)
  then have "(of_nat (Suc ?m) :: rat) \<le> of_nat (10 ^ ?k)"
    by (simp only: of_nat_le_iff)
  then have "of_nat ?m + 1 \<le> (of_nat (10 ^ ?k) :: rat)"
    by (simp only: of_nat_Suc add.commute)
  with hi have "1 / a \<le> 10 ^ ?k" by simp
  then have "1 \<le> 10 ^ ?k * a"
    using assms(1) by (simp add: pos_divide_le_eq)
  then have "1 / 10 ^ ?k \<le> a"
    by (simp add: pos_divide_le_eq mult.commute)
  then show "10 powi (- int ?k) \<le> a"
    by (simp add: power_int_minus_divide)
  have le: "(of_nat (10 ^ (?k - 1)) :: rat) \<le> of_nat ?m"
    using b(1) by (simp only: of_nat_le_iff)
  have "(10::rat) ^ (?k - 1) = of_nat (10 ^ (?k - 1))" by simp
  with le lo have "10 ^ (?k - 1) < 1 / a" by linarith
  then have "10 ^ (?k - 1) * a < 1"
    using assms(1) by (simp add: pos_less_divide_eq)
  then have "a < 1 / 10 ^ (?k - 1)"
    by (simp add: pos_less_divide_eq mult.commute)
  moreover have "(10::rat) powi (- int ?k + 1) = 1 / 10 ^ (?k - 1)"
  proof -
    have "- int ?k + 1 = - int (?k - 1)" using k by simp
    then show ?thesis by (simp only: power_int_minus_divide power_int_of_nat)
  qed
  ultimately show "a < 10 powi (- int ?k + 1)" by simp
qed

lemma adjusted_bounds:
  assumes "x \<noteq> 0"
  shows "10 powi adjusted x \<le> \<bar>x\<bar>" and "\<bar>x\<bar> < 10 powi (adjusted x + 1)"
proof -
  have a: "0 < \<bar>x\<bar>" using assms by simp
  show "10 powi adjusted x \<le> \<bar>x\<bar>"
    using adjusted_ge1(1) [of "\<bar>x\<bar>"] adjusted_lt1(1) [of "\<bar>x\<bar>"] a
    by (cases "1 \<le> \<bar>x\<bar>") (simp_all add: adjusted_def Let_def)
  show "\<bar>x\<bar> < 10 powi (adjusted x + 1)"
    using adjusted_ge1(2) [of "\<bar>x\<bar>"] adjusted_lt1(2) [of "\<bar>x\<bar>"] a
    by (cases "1 \<le> \<bar>x\<bar>") (simp_all add: adjusted_def Let_def)
qed

lemma adjusted_unique:
  assumes "10 powi e \<le> \<bar>x\<bar>" and "\<bar>x\<bar> < 10 powi (e + 1)"
  shows "adjusted x = e"
proof -
  have nz: "x \<noteq> 0"
  proof
    assume "x = 0"
    with assms(1) have "(10::rat) powi e \<le> 0" by simp
    moreover have "(0::rat) < 10 powi e" by simp
    ultimately show False by simp
  qed
  note b = adjusted_bounds [OF nz]
  have l1: "(10::rat) powi e < 10 powi (adjusted x + 1)" using assms(1) b(2) by linarith
  have 1: "e < adjusted x + 1"
  proof (rule ccontr)
    assume "\<not> e < adjusted x + 1"
    then have "adjusted x + 1 \<le> e" by simp
    then have "(10::rat) powi (adjusted x + 1) \<le> 10 powi e"
      by (rule power_int_increasing) simp
    with l1 show False by simp
  qed
  have l2: "(10::rat) powi adjusted x < 10 powi (e + 1)" using assms(2) b(1) by linarith
  have 2: "adjusted x < e + 1"
  proof (rule ccontr)
    assume "\<not> adjusted x < e + 1"
    then have "e + 1 \<le> adjusted x" by simp
    then have "(10::rat) powi (e + 1) \<le> 10 powi adjusted x"
      by (rule power_int_increasing) simp
    with l2 show False by simp
  qed
  from 1 2 show ?thesis by simp
qed

lemma round28_zero [simp]: "round28 0 = 0"
  by (simp add: round28_def)

lemma round28_error: "\<bar>round28 x - x\<bar> \<le> unit_roundoff * \<bar>x\<bar>"
proof (cases "x = 0")
  case True
  then show ?thesis by simp
next
  case False
  let ?q = "(10::rat) powi (adjusted x - 27)"
  let ?r = "round_half_even (x / ?q)"
  have q: "0 < ?q" by simp
  have r: "round28 x = of_int ?r * ?q"
    using False by (simp add: round28_def Let_def)
  have "round28 x - x = (of_int ?r - x / ?q) * ?q"
    using q by (simp add: r field_simps)
  then have "\<bar>round28 x - x\<bar> = \<bar>of_int ?r - x / ?q\<bar> * ?q"
    using q by (simp add: abs_mult)
  also have "\<dots> \<le> (1 / 2) * ?q"
    using round_half_even_error [of "x / ?q"] q by (intro mult_right_mono) simp_all
  also have "?q = 10 powi adjusted x / 10 ^ 27"
    by (simp add: power_int_diff)
  also have "(1 / 2) * (10 powi adjusted x / 10 ^ 27) \<le> (1 / 2) * (\<bar>x\<bar> / 10 ^ 27)"
    using adjusted_bounds(1) [OF False] by (simp add: divide_right_mono)
  also have "\<dots> = unit_roundoff * \<bar>x\<bar>"
    by (simp add: unit_roundoff_def)
  finally show ?thesis .
qed

lemma unit_roundoff_bounds: "0 < unit_roundoff" "unit_roundoff < 1"
  by (simp_all add: unit_roundoff_def)

lemma round28_bounds:
  assumes "0 \<le> x"
  shows "(1 - unit_roundoff) * x \<le> round28 x" and "round28 x \<le> (1 + unit_roundoff) * x"
  using round28_error [of x] assms by (simp_all add: algebra_simps abs_le_iff)

lemma round28_pos:
  assumes "0 < x"
  shows "0 < round28 x"
proof -
  have "0 < (1 - unit_roundoff) * x"
    using assms unit_roundoff_bounds by simp
  also have "\<dots> \<le> round28 x" using assms by (intro round28_bounds) simp
  finally show ?thesis .
qed

lemma round28_neg:
  assumes "x < 0"
  shows "round28 x < 0"
proof -
  have "round28 x \<le> x + unit_roundoff * \<bar>x\<bar>"
    using round28_error [of x] by (simp add: abs_le_iff algebra_simps)
  also have "\<dots> = (1 - unit_roundoff) * x" using assms by (simp add: algebra_simps)
  also have "\<dots> < 0" using assms unit_roundoff_bounds by (simp add: mult_pos_neg)
  finally show ?thesis .
qed

lemma round28_eq_0_iff [simp]: "round28 x = 0 \<longleftrightarrow> x = 0"
  using round28_pos [of x] round28_neg [of x] by (cases "x = 0"; cases "0 < x") auto

lemma round28_nonneg: "0 \<le> x \<Longrightarrow> 0 \<le> round28 x"
  using round28_pos [of x] by (cases "x = 0") auto

lemma round28_eqI:
  assumes "10 powi e \<le> \<bar>x\<bar>" and "\<bar>x\<bar> < 10 powi (e + 1)"
    and "\<bar>x / 10 powi (e - 27) - of_int n\<bar> < 1 / 2"
  shows "round28 x = of_int n * 10 powi (e - 27)"
proof -
  have a: "adjusted x = e" using assms(1,2) by (rule adjusted_unique)
  have nz: "x \<noteq> 0"
  proof
    assume "x = 0"
    with assms(1) have "(10::rat) powi e \<le> 0" by simp
    moreover have "(0::rat) < 10 powi e" by simp
    ultimately show False by simp
  qed
  have "round_half_even (x / 10 powi (e - 27)) = n"
    using assms(3) by (rule round_half_even_eqI)
  then show ?thesis using nz a by (simp add: round28_def Let_def)
qed

lemma round28_of_int:
  assumes "\<bar>n\<bar> < 10 ^ 28"
  shows "round28 (of_int n) = of_int n"
proof (cases "n = 0")
  case True
  then show ?thesis by simp
next
  case False
  let ?m = "nat \<bar>n\<bar>"
  let ?d = "floorlog 10 ?m"
  have m: "0 < ?m" using False by simp
  from floorlog_bounds [of ?m 10] m
  have b: "10 ^ (?d - 1) \<le> ?m" "?m < 10 ^ ?d" by simp_all
  have d1: "1 \<le> ?d" using b(2) m by (cases ?d) simp_all
  have "?m < 10 ^ 28" using assms by (simp add: nat_less_iff)
  then have d28: "?d \<le> 28" using m by (simp add: floorlog_le_iff)
  have ax: "\<bar>(of_int n :: rat)\<bar> = of_nat ?m" by simp
  have lo: "(10::rat) powi (int ?d - 1) \<le> \<bar>of_int n\<bar>"
  proof -
    have "(10::rat) powi (int ?d - 1) = of_nat (10 ^ (?d - 1))"
      using d1 by (simp add: power_int_def nat_diff_distrib' of_nat_diff)
    also have "\<dots> \<le> of_nat ?m" using b(1) by (simp only: of_nat_le_iff)
    finally show ?thesis by (simp only: ax)
  qed
  have hi: "\<bar>(of_int n :: rat)\<bar> < 10 powi (int ?d - 1 + 1)"
  proof -
    have "(of_nat ?m :: rat) < of_nat (10 ^ ?d)" using b(2) by (simp only: of_nat_less_iff)
    then show ?thesis by (simp only: ax) simp
  qed
  have e: "int ?d - 1 - 27 = - int (28 - ?d)" using d28 by simp
  have q: "(10::rat) powi (int ?d - 1 - 27) = 1 / 10 ^ (28 - ?d)"
    by (simp only: e power_int_minus_divide power_int_of_nat)
  have "(of_int n :: rat) / 10 powi (int ?d - 1 - 27) = of_int (n * 10 ^ (28 - ?d))"
    unfolding q by simp
  then have "\<bar>(of_int n :: rat) / 10 powi (int ?d - 1 - 27) - of_int (n * 10 ^ (28 - ?d))\<bar> < 1 / 2"
    by (simp only:) simp
  from round28_eqI [OF lo hi this]
  show ?thesis unfolding q by simp
qed

lemma round28_numeral:
  assumes "numeral w < (10::int) ^ 28"
  shows "round28 (numeral w) = numeral w"
  using round28_of_int [of "numeral w"] assms by simp


lemma round28_one [simp]: "round28 1 = 1"
  using round28_of_int [of 1] by simp

lemma round28_minus_one [simp]: "round28 (- 1) = - 1"
  using round28_of_int [of "- 1"] by simp

section \<open>Position.decrease\<close>

lemma decrease_full:
  assumes "0 < quantity p" and "0 < price"
  shows "decrease p (quantity p) price =
           Inr ((quantity p * entry_price p, pnl p price),
                p\<lparr>quantity := 0, side := 0, entry_price := 0\<rparr>)"
  using assms by (simp add: decrease_def Let_def pnl_def)

text \<open>
  Claim C6, as the code has it. For \<open>0 < qty \<le> quantity\<close> and \<open>price > 0\<close>,
  \<^verbatim>\<open>decrease(qty, price)\<close> sets the quantity to \<open>quantity - qty\<close> rounded to 28
  significant digits and returns \<open>initial = qty * entryPrice\<close> rounded to 28 digits and
  \<open>pnl = side * qty * (price - entryPrice)\<close> with each of its three operations rounded;
  a rounding changes a value by at most \<open>5 / 10\<^sup>2\<^sup>8\<close> of its size. The leverage is kept.
  The resulting quantity is zero exactly when \<open>qty = quantity\<close>; then the side and the
  entry price are reset to zero, and otherwise both are unchanged.
\<close>

theorem decrease28_spec:
  assumes "0 < qty" and "qty \<le> quantity p" and "0 < price"
  shows "\<exists>p'. decrease28 p qty price =
            Inr ((mul28 qty (entry_price p),
                  mul28 (mul28 (of_int (side p)) qty) (sub28 price (entry_price p))), p') \<and>
          quantity p' = round28 (quantity p - qty) \<and>
          \<bar>quantity p' - (quantity p - qty)\<bar> \<le> unit_roundoff * \<bar>quantity p - qty\<bar> \<and>
          \<bar>mul28 qty (entry_price p) - qty * entry_price p\<bar>
             \<le> unit_roundoff * \<bar>qty * entry_price p\<bar> \<and>
          leverage p' = leverage p \<and>
          (quantity p' = 0 \<longleftrightarrow> qty = quantity p) \<and>
          (quantity p' = 0 \<longrightarrow> side p' = 0 \<and> entry_price p' = 0) \<and>
          (quantity p' \<noteq> 0 \<longrightarrow> side p' = side p \<and> entry_price p' = entry_price p)"
  using assms round28_error [of "quantity p - qty"] round28_error [of "qty * entry_price p"]
  by (auto simp: decrease28_def Let_def sub28_def mul28_def)

theorem decrease28_spec_witness:
  "(0::rat) < 1 \<and>
   (1::rat) \<le> quantity \<lparr>side = 1, quantity = 3, entry_price = 100, leverage = 5\<rparr> \<and>
   (0::rat) < 110 \<and>
   decrease28 \<lparr>side = 1, quantity = 3, entry_price = 100, leverage = 5\<rparr> 1 110 =
     Inr ((100, 10), \<lparr>side = 1, quantity = 2, entry_price = 100, leverage = 5\<rparr>)"
  using decrease28_spec [of 1 "\<lparr>side = 1, quantity = 3, entry_price = 100, leverage = 5\<rparr>" 110]
  by (simp add: decrease28_def Let_def sub28_def mul28_def round28_numeral)

text \<open>
  The quantity is not always reduced by \<open>qty\<close>: from the quantity
  1.000000000000000000000000001, \<^verbatim>\<open>decrease\<close> by \<open>10\<^sup>-\<^sup>2\<^sup>8\<close> leaves the quantity as it was.
\<close>

lemma round28_example_quantity:
  "round28 (10000000000000000000000000009 / 10000000000000000000000000000) =
     1000000000000000000000000001 / 1000000000000000000000000000"
proof -
  have "round28 (10000000000000000000000000009 / 10000000000000000000000000000) =
        of_int 1000000000000000000000000001 * 10 powi (0 - 27)"
    by (rule round28_eqI) (simp_all add: power_int_minus_divide)
  then show ?thesis by (simp add: power_int_minus_divide)
qed

lemma round28_example_initial:
  "round28 (1 / 100000000000000000000000000) = 1 / 100000000000000000000000000"
proof -
  have "round28 (1 / 100000000000000000000000000) =
        of_int 1000000000000000000000000000 * 10 powi (- 26 - 27)"
    by (rule round28_eqI) (simp_all add: power_int_minus_divide)
  then show ?thesis by (simp add: power_int_minus_divide)
qed

theorem decrease28_keeps_quantity:
  "(0::rat) < 1 / 10 ^ 28 \<and>
   (1 / 10 ^ 28 :: rat) \<le> 1000000000000000000000000001 / 10 ^ 27 \<and>
   decrease28
      \<lparr>side = 1, quantity = 1000000000000000000000000001 / 10 ^ 27, entry_price = 100,
       leverage = 1\<rparr> (1 / 10 ^ 28) 100 =
     Inr ((1 / 10 ^ 26, 0),
          \<lparr>side = 1, quantity = 1000000000000000000000000001 / 10 ^ 27,
           entry_price = 100, leverage = 1\<rparr>) \<and>
   (1000000000000000000000000001 / 10 ^ 27 - 1 / 10 ^ 28 :: rat) \<noteq>
     1000000000000000000000000001 / 10 ^ 27"
  by (simp add: decrease28_def Let_def sub28_def mul28_def round28_example_quantity
      round28_example_initial)

text \<open>Where no operation rounds, the two embeddings of \<^verbatim>\<open>decrease\<close> agree.\<close>

lemma decrease28_exact:
  assumes "exact28 (quantity p - qty)" and "exact28 (qty * entry_price p)"
    and "exact28 (of_int (side p) * qty)" and "exact28 (price - entry_price p)"
    and "exact28 (of_int (side p) * qty * (price - entry_price p))"
  shows "decrease28 p qty price = decrease p qty price"
  using assms by (simp add: decrease28_def decrease_def sub28_def mul28_def exact28_def Let_def)

section \<open>The credit of a full close is the value of the position\<close>

lemma decrease28_full:
  assumes "0 < quantity p" and "0 < price"
  shows "decrease28 p (quantity p) price =
           Inr ((mul28 (quantity p) (entry_price p), pnl28 p price),
                p\<lparr>quantity := 0, side := 0, entry_price := 0\<rparr>)"
  using assms by (simp add: decrease28_def Let_def pnl28_def sub28_def)

text \<open>
  Claim C10. For an open position (its quantity is positive) and a price \<open>price > 0\<close>,
  the amount \<open>initial / leverage + pnl - (initial + pnl) * feeRate\<close> credited on a full
  close, where \<open>(initial, pnl)\<close> is what \<^verbatim>\<open>decrease(quantity, price)\<close> returns, is the
  \<^verbatim>\<open>value(price, feeRate)\<close> of the position before the close (both raise for a leverage
  of zero). Hence the close-and-reverse branch tests the cost of the remaining quantity
  against the balance as it is after the close leg, \<open>balance\<close> plus that credit: it
  reverses the position exactly when that balance covers the cost, and then debits the
  cost from it; otherwise it drops the order and changes nothing else. The credit and
  the value are equal in the decimal context as well, where every operation is rounded
  to 28 digits: the two are computed by the same operations in the same order.
\<close>

theorem full_close_credit_eq_value:
  assumes "0 < quantity p" and "0 < price"
  shows "(\<exists>initial pl p'.
           decrease p (quantity p) price = Inr ((initial, pl), p') \<and>
           value p price fr =
             (case dec_div initial (of_int (leverage p)) of
                Inl e \<Rightarrow> Inl e
              | Inr m \<Rightarrow> Inr (m + pl - (initial + pl) * fr)) \<and>
           (\<forall>s order.
              position s = p \<and> fee_rate s = fr \<and> leverage p \<noteq> 0 \<longrightarrow>
              close_and_reverse s order price (leverage p) =
                (let remaining = o_quantity order - quantity p;
                     cost = remaining * price / of_int (leverage p) + remaining * price * fr;
                     after_close =
                       balance s +
                       (initial / of_int (leverage p) + pl - (initial + pl) * fr)
                 in if after_close \<ge> cost then
                      (case increase (p'\<lparr>side := (if o_side order = BUY then 1 else -1)\<rparr>)
                              remaining price of
                         Inl e \<Rightarrow> Inl e
                       | Inr pos2 \<Rightarrow>
                           Inr (True,
                                drop_order (s\<lparr>balance := after_close - cost,
                                              position := pos2\<rparr>) order))
                    else Inr (False, drop_order s order)))) \<and>
         (\<exists>initial pl p'.
           decrease28 p (quantity p) price = Inr ((initial, pl), p') \<and>
           value28 p price fr =
             (case div28 initial (of_int (leverage p)) of
                Inl e \<Rightarrow> Inl e
              | Inr m \<Rightarrow> Inr (sub28 (add28 m pl) (mul28 (add28 initial pl) fr))))"
  using assms
  by (simp add: decrease_full decrease28_full value_def value28_def close_and_reverse_def
      reverse_position_def dec_div_def Let_def)

theorem full_close_credit_eq_value_witness:
  "0 < quantity \<lparr>side = 1, quantity = 2, entry_price = 100, leverage = 5\<rparr> \<and>
   (0::rat) < 110 \<and>
   decrease \<lparr>side = 1, quantity = 2, entry_price = 100, leverage = 5\<rparr> 2 110 =
     Inr ((200, 20), \<lparr>side = 0, quantity = 0, entry_price = 0, leverage = 5\<rparr>) \<and>
   value \<lparr>side = 1, quantity = 2, entry_price = 100, leverage = 5\<rparr> 110 (1 / 100) =
     Inr (289 / 5) \<and>
   close_and_reverse
     \<lparr>balance = 0, position = \<lparr>side = 1, quantity = 2, entry_price = 100, leverage = 5\<rparr>,
      fee_rate = 1 / 100, unit = 1,
      orders = [\<lparr>o_side = SELL, o_quantity = 3, o_price = None, o_id = 0\<rparr>],
      db_leverage = 5\<rparr>
     \<lparr>o_side = SELL, o_quantity = 3, o_price = None, o_id = 0\<rparr> 110 5 =
     Inr (True,
          \<lparr>balance = 289 / 5 - 231 / 10,
           position = \<lparr>side = - 1, quantity = 1, entry_price = 110, leverage = 5\<rparr>,
           fee_rate = 1 / 100, unit = 1, orders = [], db_leverage = 5\<rparr>)"
  using full_close_credit_eq_value
          [of "\<lparr>side = 1, quantity = 2, entry_price = 100, leverage = 5\<rparr>" 110 "1 / 100"]
  by (simp add: decrease_def value_def pnl_def dec_div_def Let_def close_and_reverse_def
      reverse_position_def increase_def drop_order_def)

section \<open>What an order leaves alone\<close>






section \<open>Eligibility\<close>

lemma check_orders_filter: "check_orders os price = filter (spec_eligible price) os"
  by (induction os) (auto simp: spec_eligible_def split: option.splits)

text \<open>
  Claim C8, at an input where the code departs from it. The client stores the limit
  price 100.1 of a Buy as a float: the double nearest to 100.1, which is
  \<open>7043911292184166 / 2\<^sup>4\<^sup>6 = 3521955646092083 / 2\<^sup>4\<^sup>5\<close>, within half a unit in the last
  place (\<open>2\<^sup>-\<^sup>4\<^sup>7\<close>) of 100.1 and below it. \<^verbatim>\<open>check_orders\<close> converts the stored price with
  \<^verbatim>\<open>Decimal(order["price"])\<close>, the exact value of that float; the sibling conversion in
  \<^verbatim>\<open>process_orders\<close> is \<^verbatim>\<open>Decimal(str(order["price"]))\<close>, which is 100.1. At the tick
  price 100.1 the condition \<open>price \<le> limitPrice\<close> holds of the limit price 100.1, and
  \<^verbatim>\<open>check_orders\<close> does not select the order.
\<close>

theorem limit_buy_float_not_selected:
  "check_orders
     [\<lparr>o_side = BUY, o_quantity = 1,
       o_price = Some (3521955646092083 / 35184372088832), o_id = 0\<rparr>] (1001 / 10) = [] \<and>
   (3521955646092083 / 35184372088832 :: rat) = 7043911292184166 / 2 ^ 46 \<and>
   \<bar>7043911292184166 / 2 ^ 46 - 1001 / 10 :: rat\<bar> < 1 / 2 ^ 47 \<and>
   (3521955646092083 / 35184372088832 :: rat) < 1001 / 10 \<and>
   spec_eligible (1001 / 10)
     \<lparr>o_side = BUY, o_quantity = 1, o_price = Some (1001 / 10), o_id = 0\<rparr>"
  by (simp add: spec_eligible_def)


section \<open>The execution price of a limit order\<close>

lemma execution_price_eligible:
  assumes "spec_eligible price order"
  shows "execution_price order price = price"
  using assms by (auto simp: spec_eligible_def execution_price_def split: option.splits)

text \<open>
  Claim C1, as the code has it. Every order that is eligible at the current tick, that
  is, every order that \<^verbatim>\<open>check_orders\<close> selects, executes at the tick price. The test of
  line 238 replaces the price by the limit price only for a tick worse than the limit
  (above it for a Buy, below it for a Sell), and no eligible order meets it.
\<close>

theorem eligible_order_executes_at_tick_price:
  assumes "order \<in> set (check_orders os price)"
  shows "execution_price order price = price"
proof -
  from assms have "order \<in> set (filter (spec_eligible price) os)"
    by (simp add: check_orders_filter)
  then have "spec_eligible price order" by simp
  then show ?thesis by (rule execution_price_eligible)
qed

theorem eligible_order_executes_at_tick_price_witness:
  "\<lparr>o_side = SELL, o_quantity = 2, o_price = Some 100, o_id = 7\<rparr>
     \<in> set (check_orders [\<lparr>o_side = SELL, o_quantity = 2, o_price = Some 100, o_id = 7\<rparr>] 104) \<and>
   execution_price \<lparr>o_side = SELL, o_quantity = 2, o_price = Some 100, o_id = 7\<rparr> 104 = 104"
  using eligible_order_executes_at_tick_price
          [of "\<lparr>o_side = SELL, o_quantity = 2, o_price = Some 100, o_id = 7\<rparr>"
              "[\<lparr>o_side = SELL, o_quantity = 2, o_price = Some 100, o_id = 7\<rparr>]" 104]
  by simp

text \<open>
  The example of the claim fails: a Buy limit order at 100 for quantity 1, alone in the
  queue of an account with balance 1000, leverage 1 and no fee, is eligible at the tick
  price 95 and executes at 95, not at 100: the balance becomes 905 and the position is
  Long 1 at entry price 95.
\<close>

theorem limit_buy_100_fills_at_tick_95:
  "check_orders [\<lparr>o_side = BUY, o_quantity = 1, o_price = Some 100, o_id = 0\<rparr>] 95 =
     [\<lparr>o_side = BUY, o_quantity = 1, o_price = Some 100, o_id = 0\<rparr>] \<and>
   execution_price \<lparr>o_side = BUY, o_quantity = 1, o_price = Some 100, o_id = 0\<rparr> 95 = 95 \<and>
   execution_price \<lparr>o_side = BUY, o_quantity = 1, o_price = Some 100, o_id = 0\<rparr> 95 \<noteq> 100 \<and>
   process_orders
     \<lparr>balance = 1000, position = Position, fee_rate = 0, unit = 1,
      orders = [\<lparr>o_side = BUY, o_quantity = 1, o_price = Some 100, o_id = 0\<rparr>],
      db_leverage = 1\<rparr> 95 =
     Inr (Some True,
          \<lparr>balance = 905,
           position = \<lparr>side = 1, quantity = 1, entry_price = 95, leverage = 1\<rparr>,
           fee_rate = 0, unit = 1, orders = [], db_leverage = 1\<rparr>)"
  by (simp add: process_orders_def process_order_def execution_price_def
      set_leverage_def Position_def dec_div_def opens_def open_or_increase_def increase_def
      drop_order_def)

section \<open>The margin at the liquidation price\<close>

lemma liquidation_price_value:
  assumes "leverage p \<noteq> 0"
  shows "liquidation_price p fr =
           Inr ((entry_price p - of_int (side p) * entry_price p / of_int (leverage p)) *
                (1 + of_int (side p) * quantity p * fr))"
  using assms by (simp add: liquidation_price_def dec_div_def Let_def field_simps)








section \<open>Rejected orders\<close>

lemma set_leverage_value:
  "set_leverage p l =
     (if side p = 0 then l else leverage p,
      p\<lparr>leverage := (if side p = 0 then l else leverage p)\<rparr>)"
  by (simp add: set_leverage_def Let_def)

text \<open>
  Claim C5, as the code has it. Let \<open>order\<close> be the order that \<^verbatim>\<open>process_orders\<close>
  takes up at this tick, \<open>price\<close> its execution price and \<open>lev\<close> the leverage that
  \<^verbatim>\<open>set_leverage\<close> returns (the requested leverage when the position is flat, the
  position's own otherwise), not zero. If \<open>quantity * price / lev\<close> is below the minimum
  order value, or the order opens or increases the position and the balance is below
  the cost, or it closes and reverses the position and \<open>balance + value(price, feeRate)\<close>
  is below the cost of the remaining quantity, then \<^verbatim>\<open>process_orders\<close> returns \<^verbatim>\<open>False\<close>,
  the order is removed from the queue, and the balance and the side, quantity and entry
  price of the position are unchanged: the close leg of a rejected close-and-reverse is
  not executed. The leverage of the position is \<open>lev\<close>: unchanged for an open position,
  the requested leverage for a flat one.
\<close>

theorem rejected_order_spec:
  assumes sel: "check_orders (orders s) tick = order # rest"
    and lev: "lev = (if side (position s) = 0 then db_leverage s else leverage (position s))"
    and nz: "lev \<noteq> 0"
    and price: "price = execution_price order tick"
    and qty: "qty = o_quantity order"
    and pos: "pos = (position s)\<lparr>leverage := lev\<rparr>"
    and rej: "qty * price / of_int lev < unit s \<or>
       (opens (o_side order) pos \<and>
        balance s < qty * price / of_int lev + qty * price * fee_rate s) \<or>
       (\<not> opens (o_side order) pos \<and> quantity pos < qty \<and>
        (\<exists>v. value pos price (fee_rate s) = Inr v \<and>
             balance s + v < (qty - quantity pos) * price / of_int lev +
                             (qty - quantity pos) * price * fee_rate s))"
  shows "process_orders s tick =
           Inr (Some False, s\<lparr>position := pos, orders := remove1 order (orders s)\<rparr>)"
proof -
  have po: "process_order s order tick =
          Inr (False, s\<lparr>position := pos, orders := remove1 order (orders s)\<rparr>)"
  proof (cases "qty * price / of_int lev < unit s")
    case True
    then show ?thesis
      using lev nz price qty pos
      by (simp add: process_order_def set_leverage_value dec_div_def drop_order_def)
  next
    case False
    with rej consider
      (a) "opens (o_side order) pos"
          "balance s < qty * price / of_int lev + qty * price * fee_rate s"
      | (b) v where "\<not> opens (o_side order) pos" "quantity pos < qty"
          "value pos price (fee_rate s) = Inr v"
          "balance s + v < (qty - quantity pos) * price / of_int lev +
                             (qty - quantity pos) * price * fee_rate s"
      by blast
    then show ?thesis
    proof cases
      case a
      with False show ?thesis
        using lev nz price qty pos
        by (simp add: process_order_def set_leverage_value dec_div_def drop_order_def
            open_or_increase_def Let_def)
    next
      case b
      with False show ?thesis
        using lev nz price qty pos
        by (simp add: process_order_def set_leverage_value dec_div_def drop_order_def
            close_and_reverse_def Let_def)
    qed
  qed
  show ?thesis using sel po by (simp add: process_orders_def)
qed

theorem rejected_order_spec_witness:
  "check_orders
     (orders \<lparr>balance = 10,
              position = \<lparr>side = 1, quantity = 1, entry_price = 100, leverage = 2\<rparr>,
              fee_rate = 0, unit = 1,
              orders = [\<lparr>o_side = SELL, o_quantity = 3, o_price = None, o_id = 0\<rparr>],
              db_leverage = 5\<rparr>) 50 =
     [\<lparr>o_side = SELL, o_quantity = 3, o_price = None, o_id = 0\<rparr>] \<and>
   value \<lparr>side = 1, quantity = 1, entry_price = 100, leverage = 2\<rparr> 50 0 = Inr 0 \<and>
   (10::rat) + 0 < (3 - 1) * 50 / 2 + (3 - 1) * 50 * 0 \<and>
   process_orders
     \<lparr>balance = 10,
      position = \<lparr>side = 1, quantity = 1, entry_price = 100, leverage = 2\<rparr>,
      fee_rate = 0, unit = 1,
      orders = [\<lparr>o_side = SELL, o_quantity = 3, o_price = None, o_id = 0\<rparr>],
      db_leverage = 5\<rparr> 50 =
     Inr (Some False,
       \<lparr>balance = 10,
        position = \<lparr>side = 1, quantity = 1, entry_price = 100, leverage = 2\<rparr>,
        fee_rate = 0, unit = 1, orders = [], db_leverage = 5\<rparr>)"
  using rejected_order_spec
    [of "\<lparr>balance = 10,
          position = \<lparr>side = 1, quantity = 1, entry_price = 100, leverage = 2\<rparr>,
          fee_rate = 0, unit = 1,
          orders = [\<lparr>o_side = SELL, o_quantity = 3, o_price = None, o_id = 0\<rparr>],
          db_leverage = 5\<rparr>"
        50 "\<lparr>o_side = SELL, o_quantity = 3, o_price = None, o_id = 0\<rparr>" "[]" 2 50 3
        "\<lparr>side = 1, quantity = 1, entry_price = 100, leverage = 2\<rparr>"]
  by (simp add: execution_price_def opens_def value_def pnl_def dec_div_def)

text \<open>
  The leverage is not always left unchanged: a Buy of quantity 1 at the tick price 100,
  rejected for a balance of 10 below its cost of 20, leaves a flat position with the
  requested leverage 5 in place of its leverage 1.
\<close>

theorem rejected_order_changes_leverage:
  "check_orders
     [\<lparr>o_side = BUY, o_quantity = 1, o_price = None, o_id = 0\<rparr>] 100 =
     [\<lparr>o_side = BUY, o_quantity = 1, o_price = None, o_id = 0\<rparr>] \<and>
   (10::rat) < 1 * 100 / 5 + 1 * 100 * 0 \<and>
   process_orders
     \<lparr>balance = 10,
      position = \<lparr>side = 0, quantity = 0, entry_price = 0, leverage = 1\<rparr>,
      fee_rate = 0, unit = 1,
      orders = [\<lparr>o_side = BUY, o_quantity = 1, o_price = None, o_id = 0\<rparr>],
      db_leverage = 5\<rparr> 100 =
     Inr (Some False,
       \<lparr>balance = 10,
        position = \<lparr>side = 0, quantity = 0, entry_price = 0, leverage = 5\<rparr>,
        fee_rate = 0, unit = 1, orders = [], db_leverage = 5\<rparr>) \<and>
   leverage \<lparr>side = 0, quantity = 0, entry_price = 0, leverage = 5\<rparr> \<noteq>
   leverage \<lparr>side = 0, quantity = 0, entry_price = 0, leverage = 1\<rparr>"
  by (simp add: process_orders_def process_order_def execution_price_def
      set_leverage_def dec_div_def opens_def open_or_increase_def drop_order_def)

section \<open>Round trip\<close>





section \<open>The invariant of the position\<close>

lemma increase_ok:
  assumes "0 \<le> quantity p" and "0 \<le> entry_price p" and "side p \<noteq> 0"
    and "increase p qty price = Inr p'"
  shows "pos_ok p'"
proof -
  from assms(4) have q: "0 < qty" and pr: "0 < price"
    by (auto simp: increase_def split: if_splits)
  have d: "0 < quantity p + qty" using assms(1) q by simp
  have n: "0 < quantity p * entry_price p + qty * price"
    using assms(1,2) q pr by (simp add: add_nonneg_pos)
  from assms(4) q pr d
  have p': "p' = p\<lparr>entry_price :=
                    (quantity p * entry_price p + qty * price) / (quantity p + qty),
                  quantity := quantity p + qty\<rparr>"
    by (auto simp: increase_def dec_div_def)
  have e: "0 < entry_price p'" unfolding p' using n d by simp
  have q': "0 < quantity p'" unfolding p' using d by simp
  have s': "side p' \<noteq> 0" unfolding p' using assms(3) by simp
  show ?thesis using e q' s' by (simp add: pos_ok_def)
qed

lemma decrease_ok:
  assumes "pos_ok p" and "decrease p qty price = Inr (r, p')"
  shows "pos_ok p'"
  using assms by (auto simp: decrease_def pos_ok_def Let_def split: if_splits)

lemma decrease_full_flat:
  assumes "decrease p (quantity p) price = Inr (r, p')"
  shows "quantity p' = 0 \<and> entry_price p' = 0"
  using assms by (auto simp: decrease_def Let_def split: if_splits)

lemma open_or_increase_position:
  assumes "open_or_increase s order price lev = Inr (b, s')"
  shows "position s' = position s \<or>
         increase ((position s)\<lparr>side := (if o_side order = BUY then 1 else -1)\<rparr>)
           (o_quantity order) price = Inr (position s')"
  using assms
  by (auto simp: open_or_increase_def drop_order_def Let_def split: sum.splits if_splits)

lemma open_or_increase_ok:
  assumes "pos_ok (position s)" and "open_or_increase s order price lev = Inr (b, s')"
  shows "pos_ok (position s')"
proof -
  from open_or_increase_position [OF assms(2)]
  show ?thesis
  proof
    assume "position s' = position s"
    with assms(1) show ?thesis by simp
  next
    assume inc: "increase ((position s)\<lparr>side := (if o_side order = BUY then 1 else -1)\<rparr>)
                   (o_quantity order) price = Inr (position s')"
    show ?thesis
      using assms(1) by (intro increase_ok [OF _ _ _ inc]) (simp_all add: pos_ok_def)
  qed
qed

lemma close_or_decrease_ok:
  assumes "pos_ok (position s)" and "close_or_decrease s order price lev = Inr (b, s')"
  shows "pos_ok (position s')"
proof -
  from assms(2) obtain r where "decrease (position s) (o_quantity order) price = Inr (r, position s')"
    by (auto simp: close_or_decrease_def drop_order_def Let_def split: sum.splits prod.splits)
  with assms(1) show ?thesis by (rule decrease_ok)
qed

lemma reverse_position_ok:
  assumes "reverse_position s order price lev remaining cost = Inr (b, s')"
  shows "pos_ok (position s')"
proof -
  from assms obtain r pos1 where
    dec: "decrease (position s) (quantity (position s)) price = Inr (r, pos1)" and
    inc: "increase (pos1\<lparr>side := (if o_side order = BUY then 1 else -1)\<rparr>) remaining price =
            Inr (position s')"
    by (auto simp: reverse_position_def drop_order_def Let_def split: sum.splits prod.splits)
  from decrease_full_flat [OF dec] show ?thesis
    by (intro increase_ok [OF _ _ _ inc]) simp_all
qed

lemma close_and_reverse_ok:
  assumes "pos_ok (position s)" and "close_and_reverse s order price lev = Inr (b, s')"
  shows "pos_ok (position s')"
proof -
  from assms(2) have
    "position s' = position s \<or>
     (\<exists>remaining cost. reverse_position s order price lev remaining cost = Inr (b, s'))"
    by (auto simp: close_and_reverse_def drop_order_def Let_def split: sum.splits if_splits)
  then show ?thesis using assms(1) reverse_position_ok by auto
qed

lemma set_leverage_ok:
  assumes "pos_ok p" and "set_leverage p l = (lev, p')"
  shows "pos_ok p'"
  using assms by (auto simp: set_leverage_def Let_def pos_ok_def split: if_splits)

lemma process_order_ok:
  assumes "pos_ok (position s)" and "process_order s order tick = Inr (b, s')"
  shows "pos_ok (position s')"
proof -
  obtain lev pos where sl: "set_leverage (position s) (db_leverage s) = (lev, pos)"
    by (cases "set_leverage (position s) (db_leverage s)")
  let ?s1 = "s\<lparr>position := pos\<rparr>"
  have ok1: "pos_ok (position ?s1)"
    using set_leverage_ok [OF assms(1) sl] by simp
  from assms(2) sl have
    "position s' = pos \<or>
     open_or_increase ?s1 order (execution_price order tick) lev = Inr (b, s') \<or>
     close_or_decrease ?s1 order (execution_price order tick) lev = Inr (b, s') \<or>
     close_and_reverse ?s1 order (execution_price order tick) lev = Inr (b, s')"
    by (auto simp: process_order_def drop_order_def Let_def split: sum.splits if_splits)
  then show ?thesis
    using ok1 open_or_increase_ok [OF ok1] close_or_decrease_ok [OF ok1]
      close_and_reverse_ok [OF ok1]
    by auto
qed

lemma process_orders_ok:
  assumes "pos_ok (position s)" and "process_orders s price = Inr (r, s')"
  shows "pos_ok (position s')"
  using assms
  by (auto simp: process_orders_def split: list.splits sum.splits dest: process_order_ok)

lemma liquidation_check_ok:
  assumes "pos_ok (position s)" and "liquidation_check s price = Inr (b, s')"
  shows "pos_ok (position s')"
  using assms
  by (auto simp: liquidation_check_def split: sum.splits if_splits dest: decrease_ok)

lemma reachable_pos_ok: "reachable s \<Longrightarrow> pos_ok (position s)"
proof (induction rule: reachable.induct)
  case (start b f)
  show ?case by (simp add: Server_def Position_def pos_ok_def)
next
  case (client s os l)
  then show ?case by simp
next
  case (liquidation s price b s')
  then show ?case by (auto dest: liquidation_check_ok)
next
  case (matching s price r s')
  then show ?case by (auto dest: process_orders_ok)
qed

text \<open>Two states the engine reaches by filling one market Buy of quantity 1 at 100.\<close>

lemma reachable_long_leverage_10:
  "reachable
     \<lparr>balance = 990,
      position = \<lparr>side = 1, quantity = 1, entry_price = 100, leverage = 10\<rparr>,
      fee_rate = 0, unit = 1, orders = [], db_leverage = 10\<rparr>"
proof -
  let ?buy = "\<lparr>o_side = BUY, o_quantity = 1, o_price = None, o_id = 0\<rparr>"
  have 0: "reachable ((Server 1000 0)\<lparr>orders := [?buy], db_leverage := 10\<rparr>)"
    by (rule reachable.client [OF reachable.start])
  have 1: "process_orders ((Server 1000 0)\<lparr>orders := [?buy], db_leverage := 10\<rparr>) 100 =
             Inr (Some True,
               \<lparr>balance = 990,
                position = \<lparr>side = 1, quantity = 1, entry_price = 100, leverage = 10\<rparr>,
                fee_rate = 0, unit = 1, orders = [], db_leverage = 10\<rparr>)"
    by (simp add: Server_def Position_def quantize_def round_half_even_def
        process_orders_def process_order_def execution_price_def set_leverage_def
        dec_div_def opens_def open_or_increase_def increase_def drop_order_def)
  show ?thesis by (rule reachable.matching [OF 0 1])
qed

lemma reachable_long_leverage_1:
  "reachable
     \<lparr>balance = 900,
      position = \<lparr>side = 1, quantity = 1, entry_price = 100, leverage = 1\<rparr>,
      fee_rate = 0, unit = 1, orders = [], db_leverage = 1\<rparr>"
proof -
  let ?buy = "\<lparr>o_side = BUY, o_quantity = 1, o_price = None, o_id = 0\<rparr>"
  have 0: "reachable ((Server 1000 0)\<lparr>orders := [?buy], db_leverage := 1\<rparr>)"
    by (rule reachable.client [OF reachable.start])
  have 1: "process_orders ((Server 1000 0)\<lparr>orders := [?buy], db_leverage := 1\<rparr>) 100 =
             Inr (Some True,
               \<lparr>balance = 900,
                position = \<lparr>side = 1, quantity = 1, entry_price = 100, leverage = 1\<rparr>,
                fee_rate = 0, unit = 1, orders = [], db_leverage = 1\<rparr>)"
    by (simp add: Server_def Position_def quantize_def round_half_even_def
        process_orders_def process_order_def execution_price_def set_leverage_def
        dec_div_def opens_def open_or_increase_def increase_def drop_order_def)
  show ?thesis by (rule reachable.matching [OF 0 1])
qed

text \<open>
  Claim C2. In every state the engine reaches from its initial state, whatever orders
  and leverage requests arrive and whatever the prices are, by opening or increasing,
  decreasing or closing, closing and reversing, and forced liquidation, the position
  satisfies: quantity = 0 if and only if side = 0 (flat) if and only if entry price = 0.
\<close>

theorem position_invariant:
  assumes "reachable s"
  shows "(quantity (position s) = 0 \<longleftrightarrow> side (position s) = 0) \<and>
         (side (position s) = 0 \<longleftrightarrow> entry_price (position s) = 0)"
  using reachable_pos_ok [OF assms] by (simp add: pos_ok_def)

theorem position_invariant_witness:
  "reachable
     \<lparr>balance = 900,
      position = \<lparr>side = 1, quantity = 1, entry_price = 100, leverage = 1\<rparr>,
      fee_rate = 0, unit = 1, orders = [], db_leverage = 1\<rparr> \<and>
   (quantity \<lparr>side = 1, quantity = 1, entry_price = 100, leverage = 1\<rparr> \<noteq> 0) \<and>
   (side \<lparr>side = 1, quantity = 1, entry_price = 100, leverage = 1\<rparr> \<noteq> 0) \<and>
   (entry_price \<lparr>side = 1, quantity = 1, entry_price = 100, leverage = 1\<rparr> \<noteq> 0)"
  using position_invariant [OF reachable_long_leverage_1] reachable_long_leverage_1
  by simp

section \<open>The leverage of a reachable state\<close>

lemma increase_leverage:
  "increase p qty price = Inr p' \<Longrightarrow> leverage p' = leverage p"
  by (auto simp: increase_def split: if_splits sum.splits)

lemma decrease_leverage:
  "decrease p qty price = Inr (r, p') \<Longrightarrow> leverage p' = leverage p"
  by (auto simp: decrease_def Let_def split: if_splits)

lemma open_or_increase_leverage:
  assumes "open_or_increase s order price lev = Inr (b, s')"
  shows "leverage (position s') = leverage (position s)"
  using open_or_increase_position [OF assms] by (auto dest: increase_leverage)

lemma close_or_decrease_leverage:
  assumes "close_or_decrease s order price lev = Inr (b, s')"
  shows "leverage (position s') = leverage (position s)"
proof -
  from assms obtain r where
    "decrease (position s) (o_quantity order) price = Inr (r, position s')"
    by (auto simp: close_or_decrease_def drop_order_def Let_def split: sum.splits prod.splits)
  then show ?thesis by (rule decrease_leverage)
qed

lemma reverse_position_leverage:
  assumes "reverse_position s order price lev remaining cost = Inr (b, s')"
  shows "leverage (position s') = leverage (position s)"
proof -
  from assms obtain r pos1 where
    dec: "decrease (position s) (quantity (position s)) price = Inr (r, pos1)" and
    inc: "increase (pos1\<lparr>side := (if o_side order = BUY then 1 else -1)\<rparr>) remaining price =
            Inr (position s')"
    by (auto simp: reverse_position_def drop_order_def Let_def split: sum.splits prod.splits)
  from increase_leverage [OF inc] decrease_leverage [OF dec] show ?thesis by simp
qed

lemma close_and_reverse_leverage:
  assumes "close_and_reverse s order price lev = Inr (b, s')"
  shows "leverage (position s') = leverage (position s)"
proof -
  from assms have
    "position s' = position s \<or>
     (\<exists>remaining cost. reverse_position s order price lev remaining cost = Inr (b, s'))"
    by (auto simp: close_and_reverse_def drop_order_def Let_def split: sum.splits if_splits)
  then show ?thesis using reverse_position_leverage by auto
qed

lemma process_order_leverage:
  assumes "process_order s order tick = Inr (b, s')"
  shows "leverage (position s') \<noteq> 0"
proof -
  let ?lev = "if side (position s) = 0 then db_leverage s else leverage (position s)"
  let ?pos = "(position s)\<lparr>leverage := ?lev\<rparr>"
  let ?s1 = "s\<lparr>position := ?pos\<rparr>"
  from assms have nz: "?lev \<noteq> 0"
    by (auto simp: process_order_def set_leverage_value dec_div_def Let_def split: if_splits)
  from assms have
    "position s' = ?pos \<or>
     open_or_increase ?s1 order (execution_price order tick) ?lev = Inr (b, s') \<or>
     close_or_decrease ?s1 order (execution_price order tick) ?lev = Inr (b, s') \<or>
     close_and_reverse ?s1 order (execution_price order tick) ?lev = Inr (b, s')"
    by (auto simp: process_order_def set_leverage_value drop_order_def Let_def
        split: sum.splits if_splits)
  then have "leverage (position s') = leverage (position ?s1)"
  proof (elim disjE)
    assume "position s' = ?pos"
    then show ?thesis by simp
  next
    assume "open_or_increase ?s1 order (execution_price order tick) ?lev = Inr (b, s')"
    then show ?thesis by (rule open_or_increase_leverage)
  next
    assume "close_or_decrease ?s1 order (execution_price order tick) ?lev = Inr (b, s')"
    then show ?thesis by (rule close_or_decrease_leverage)
  next
    assume "close_and_reverse ?s1 order (execution_price order tick) ?lev = Inr (b, s')"
    then show ?thesis by (rule close_and_reverse_leverage)
  qed
  with nz show ?thesis by simp
qed

lemma reachable_leverage: "reachable s \<Longrightarrow> leverage (position s) \<noteq> 0"
proof (induction rule: reachable.induct)
  case (start b f)
  show ?case by (simp add: Server_def Position_def)
next
  case (client s os l)
  then show ?case by simp
next
  case (liquidation s price b s')
  then show ?case
    by (auto simp: liquidation_check_def split: sum.splits if_splits dest: decrease_leverage)
next
  case (matching s price r s')
  then show ?case
    by (auto simp: process_orders_def split: list.splits sum.splits
        dest: process_order_leverage)
qed

section \<open>The liquidation check\<close>

text \<open>
  Claim C3, as the code has it. In every state the engine reaches and at every tick
  price \<open>price > 0\<close>: when the side is Long and \<open>price \<le> liquidationPrice(feeRate)\<close>, or
  the side is Short and \<open>price \<ge> liquidationPrice(feeRate)\<close>, the liquidation check fires
  and closes the whole position (quantity 0, side flat, entry price 0) and changes
  nothing else, the balance included; otherwise it changes nothing at all.
\<close>

theorem liquidation_check_spec:
  assumes "reachable s" and "0 < price"
  shows "\<exists>liq. liquidation_price (position s) (fee_rate s) = Inr liq \<and>
           liquidation_check s price =
             (if (side (position s) = 1 \<and> price \<le> liq) \<or>
                 (side (position s) = -1 \<and> price \<ge> liq)
              then Inr (True,
                        s\<lparr>position :=
                            (position s)\<lparr>quantity := 0, side := 0, entry_price := 0\<rparr>\<rparr>)
              else Inr (False, s))"
proof -
  have nz: "leverage (position s) \<noteq> 0"
    using assms(1) by (rule reachable_leverage)
  have "pos_ok (position s)"
    using assms(1) by (rule reachable_pos_ok)
  then have q: "side (position s) = 0 \<or> 0 < quantity (position s)"
    by (auto simp: pos_ok_def)
  show ?thesis
    using assms(2) nz q
    by (auto simp: liquidation_check_def liquidation_price_value decrease_full)
qed

theorem liquidation_check_spec_witness:
  "reachable
     \<lparr>balance = 990,
      position = \<lparr>side = 1, quantity = 1, entry_price = 100, leverage = 10\<rparr>,
      fee_rate = 0, unit = 1, orders = [], db_leverage = 10\<rparr> \<and>
   (0::rat) < 90 \<and>
   liquidation_price \<lparr>side = 1, quantity = 1, entry_price = 100, leverage = 10\<rparr> 0 = Inr 90 \<and>
   liquidation_check
     \<lparr>balance = 990,
      position = \<lparr>side = 1, quantity = 1, entry_price = 100, leverage = 10\<rparr>,
      fee_rate = 0, unit = 1, orders = [], db_leverage = 10\<rparr> 90 =
     Inr (True,
          \<lparr>balance = 990,
           position = \<lparr>side = 0, quantity = 0, entry_price = 0, leverage = 10\<rparr>,
           fee_rate = 0, unit = 1, orders = [], db_leverage = 10\<rparr>)"
  using liquidation_check_spec [OF reachable_long_leverage_10, of 90]
    reachable_long_leverage_10
  by (simp add: liquidation_price_def dec_div_def)

text \<open>A close price below 0.05 gives the tick price 0.\<close>

lemma last_price_zero: "last_price (4 / 100) = 0"
proof -
  have "\<lfloor>(2 / 5 :: rat)\<rfloor> = 0" by (simp add: floor_eq_iff)
  then show ?thesis
    by (simp add: last_price_def quantize_def round_half_even_def)
qed

text \<open>
  Without \<open>price > 0\<close> the claim fails. A Long position of quantity 1 at entry price 100
  with leverage 1 has liquidation price 0; at the tick price 0 the trigger condition
  holds, and the forced \<^verbatim>\<open>decrease\<close> fails its assertion \<^verbatim>\<open>price > 0.0\<close>: the check raises
  and the position is not closed.
\<close>

theorem liquidation_at_price_zero_raises:
  "reachable
     \<lparr>balance = 900,
      position = \<lparr>side = 1, quantity = 1, entry_price = 100, leverage = 1\<rparr>,
      fee_rate = 0, unit = 1, orders = [], db_leverage = 1\<rparr> \<and>
   liquidation_price \<lparr>side = 1, quantity = 1, entry_price = 100, leverage = 1\<rparr> 0 = Inr 0 \<and>
   (0::rat) \<le> 0 \<and>
   liquidation_check
     \<lparr>balance = 900,
      position = \<lparr>side = 1, quantity = 1, entry_price = 100, leverage = 1\<rparr>,
      fee_rate = 0, unit = 1, orders = [], db_leverage = 1\<rparr> 0 = Inl AssertionError"
  using reachable_long_leverage_1
  by (simp add: liquidation_check_def liquidation_price_def dec_div_def decrease_def)

section \<open>The weighted average entry price\<close>

lemma factor_bounds: "0 < lo_factor" "lo_factor \<le> 1" "1 \<le> hi_factor"
proof -
  note u = unit_roundoff_bounds
  show "0 < lo_factor" using u by (simp add: lo_factor_def)
  have "(1 - unit_roundoff) ^ 3 \<le> 1" using u by (intro power_le_one) simp_all
  then have "(1 - unit_roundoff) ^ 3 \<le> 1 + unit_roundoff" using u by linarith
  then show "lo_factor \<le> 1" using u by (simp add: lo_factor_def)
  have "1 \<le> (1 + unit_roundoff) ^ 3" using u by (intro one_le_power) simp
  then have "1 - unit_roundoff \<le> (1 + unit_roundoff) ^ 3" using u by linarith
  then show "1 \<le> hi_factor" using u by (simp add: hi_factor_def)
qed

lemma weighted_step_bounds:
  fixes q e qty price lo hi :: rat
  assumes q: "0 \<le> q" and qty: "0 < qty" and lo: "0 < lo"
    and pr: "lo \<le> price" "price \<le> hi"
    and en: "q = 0 \<or> (lo \<le> e \<and> e \<le> hi)"
  shows "lo_factor * lo
           \<le> round28 (round28 (round28 (q * e) + round28 (qty * price)) / round28 (q + qty))"
    and "round28 (round28 (round28 (q * e) + round28 (qty * price)) / round28 (q + qty))
           \<le> hi_factor * hi"
proof -
  define U where "U = 1 + unit_roundoff"
  define V where "V = 1 - unit_roundoff"
  have U: "0 < U" and V: "0 < V"
    using unit_roundoff_bounds by (simp_all add: U_def V_def)
  define a where "a = q * e"
  define b where "b = qty * price"
  define d where "d = q + qty"
  define S where "S = round28 (round28 a + round28 b)"
  define D where "D = round28 d"
  define t where "t = S / D"
  have a: "0 \<le> a" using q en lo by (auto simp: a_def)
  have price: "0 < price" using lo pr by simp
  have b: "0 < b" using qty price by (simp add: b_def)
  have d: "0 < d" using q qty by (simp add: d_def)
  have alo: "q * lo \<le> a" using q en by (auto simp: a_def mult_left_mono)
  have ahi: "a \<le> q * hi" using q en by (auto simp: a_def mult_left_mono)
  have blo: "qty * lo \<le> b" using qty pr by (simp add: b_def)
  have bhi: "b \<le> qty * hi" using qty pr by (simp add: b_def)
  have avlo: "lo * d \<le> a + b" using alo blo by (simp add: d_def algebra_simps)
  have avhi: "a + b \<le> hi * d" using ahi bhi by (simp add: d_def algebra_simps)
  have A: "V * a \<le> round28 a" "round28 a \<le> U * a"
    using round28_bounds [OF a] by (simp_all add: U_def V_def)
  have B: "V * b \<le> round28 b" "round28 b \<le> U * b"
    using round28_bounds [of b] b by (simp_all add: U_def V_def)
  have s0: "0 < round28 a + round28 b"
    using round28_nonneg [OF a] round28_pos [OF b] by simp
  have slo: "V * (a + b) \<le> round28 a + round28 b"
    using A(1) B(1) by (simp add: algebra_simps)
  have shi: "round28 a + round28 b \<le> U * (a + b)"
    using A(2) B(2) by (simp add: algebra_simps)
  have S0: "0 < S" unfolding S_def using s0 by (rule round28_pos)
  have "V * (round28 a + round28 b) \<le> S" "S \<le> U * (round28 a + round28 b)"
    unfolding S_def using round28_bounds [of "round28 a + round28 b"] s0
    by (simp_all add: U_def V_def)
  moreover have "V * (V * (a + b)) \<le> V * (round28 a + round28 b)"
    using slo V by (simp add: mult_left_mono)
  moreover have "U * (round28 a + round28 b) \<le> U * (U * (a + b))"
    using shi U by (simp add: mult_left_mono)
  ultimately have Slo: "V * (V * (a + b)) \<le> S" and Shi: "S \<le> U * (U * (a + b))"
    by linarith+
  have D0: "0 < D" unfolding D_def using d by (rule round28_pos)
  have Dlo: "V * d \<le> D" and Dhi: "D \<le> U * d"
    unfolding D_def using round28_bounds [of d] d by (simp_all add: U_def V_def)
  have t0: "0 < t" using S0 D0 by (simp add: t_def)
  have E: "V * t \<le> round28 t" "round28 t \<le> U * t"
    using round28_bounds [of t] t0 by (simp_all add: U_def V_def)
  have ab0: "0 \<le> a + b" using a b by simp
  have "t \<le> (U * (U * (a + b))) / (V * d)"
    unfolding t_def using Shi Dlo V d U ab0 by (intro frac_le) simp_all
  also have "\<dots> \<le> (U * (U * (hi * d))) / (V * d)"
    using avhi U V d by (intro divide_right_mono mult_left_mono) simp_all
  also have "\<dots> = U * U * hi / V" using d V by simp
  finally have tup: "t \<le> U * U * hi / V" .
  have "U * t \<le> U * (U * U * hi / V)"
    using tup U by (intro mult_left_mono) simp_all
  also have "\<dots> = hi_factor * hi"
    by (simp add: hi_factor_def U_def V_def power3_eq_cube)
  finally have up: "round28 t \<le> hi_factor * hi" using E(2) by linarith
  have "(V * (V * (lo * d))) / (U * d) \<le> (V * (V * (a + b))) / (U * d)"
    using avlo U V d by (intro divide_right_mono mult_left_mono) simp_all
  also have "\<dots> \<le> t"
    unfolding t_def using Slo Dhi D0 S0 by (intro frac_le) simp_all
  finally have tlo: "V * V * lo / U \<le> t" using d U by simp
  have "V * (V * V * lo / U) \<le> V * t"
    using tlo V by (intro mult_left_mono) simp_all
  moreover have "V * (V * V * lo / U) = lo_factor * lo"
    by (simp add: lo_factor_def U_def V_def power3_eq_cube)
  ultimately have low: "lo_factor * lo \<le> round28 t" using E(1) by linarith
  show "lo_factor * lo
           \<le> round28 (round28 (round28 (q * e) + round28 (qty * price)) / round28 (q + qty))"
    using low by (simp add: t_def S_def D_def a_def b_def d_def)
  show "round28 (round28 (round28 (q * e) + round28 (qty * price)) / round28 (q + qty))
           \<le> hi_factor * hi"
    using up by (simp add: t_def S_def D_def a_def b_def d_def)
qed

lemma increase28_value:
  assumes "0 < qty" and "0 < price" and "0 \<le> quantity p"
  shows "increase28 p qty price =
           Inr (p\<lparr>entry_price :=
                    round28 (add28 (mul28 (quantity p) (entry_price p)) (mul28 qty price) /
                             add28 (quantity p) qty),
                  quantity := add28 (quantity p) qty\<rparr>)"
proof -
  have "0 < quantity p + qty" using assms by simp
  then have "round28 (quantity p + qty) \<noteq> 0" by simp
  then show ?thesis using assms by (simp add: increase28_def div28_def add28_def)
qed

lemma increase_all28_bounds:
  assumes "\<forall>c\<in>set calls. 0 < fst c \<and> lo \<le> snd c \<and> snd c \<le> hi"
    and "0 < lo" and "0 \<le> quantity p"
    and "quantity p = 0 \<or>
         (lo_factor ^ k * lo \<le> entry_price p \<and> entry_price p \<le> hi_factor ^ k * hi)"
  shows "\<exists>p'. increase_all28 p calls = Inr p' \<and> 0 \<le> quantity p' \<and>
           (calls \<noteq> [] \<longrightarrow> 0 < quantity p') \<and>
           (quantity p' = 0 \<or>
            (lo_factor ^ (k + length calls) * lo \<le> entry_price p' \<and>
             entry_price p' \<le> hi_factor ^ (k + length calls) * hi))"
  using assms
proof (induction calls arbitrary: p k)
  case Nil
  then show ?case by simp
next
  case (Cons c calls)
  obtain qty price where c: "c = (qty, price)" by (cases c)
  from Cons.prems(1) c have v: "0 < qty" "lo \<le> price" "price \<le> hi" by simp_all
  have price: "0 < price" using v Cons.prems(2) by simp
  have hi: "0 < hi" using v Cons.prems(2) by simp
  let ?lo = "lo_factor ^ k * lo" and ?hi = "hi_factor ^ k * hi"
  have lk: "0 < lo_factor ^ k" "lo_factor ^ k \<le> 1"
    using factor_bounds by (simp_all add: power_le_one)
  have hk: "1 \<le> hi_factor ^ k"
    using factor_bounds by (simp add: one_le_power)
  have lo0: "0 < ?lo" using lk Cons.prems(2) by simp
  have "?lo \<le> 1 * lo" using lk Cons.prems(2) by (intro mult_right_mono) simp_all
  then have lop: "?lo \<le> price" using v by simp
  have "1 * hi \<le> ?hi" using hk hi by (intro mult_right_mono) simp_all
  then have hip: "price \<le> ?hi" using v by simp
  let ?e = "round28 (round28 (round28 (quantity p * entry_price p) + round28 (qty * price)) /
                     round28 (quantity p + qty))"
  let ?p1 = "p\<lparr>entry_price := ?e, quantity := round28 (quantity p + qty)\<rparr>"
  have inc: "increase28 p qty price = Inr ?p1"
    using increase28_value [OF v(1) price Cons.prems(3)] by (simp add: add28_def mul28_def)
  from weighted_step_bounds [OF Cons.prems(3) v(1) lo0 lop hip Cons.prems(4)]
  have b: "lo_factor * ?lo \<le> ?e" "?e \<le> hi_factor * ?hi" by simp_all
  have q1: "0 < quantity ?p1" using v Cons.prems(3) by (simp add: round28_pos)
  have e1: "quantity ?p1 = 0 \<or>
            (lo_factor ^ Suc k * lo \<le> entry_price ?p1 \<and>
             entry_price ?p1 \<le> hi_factor ^ Suc k * hi)"
    using b by (simp add: mult.assoc)
  have valid: "\<forall>c\<in>set calls. 0 < fst c \<and> lo \<le> snd c \<and> snd c \<le> hi"
    using Cons.prems(1) by simp
  have q1': "0 \<le> quantity ?p1" using q1 by simp
  from Cons.IH [OF valid Cons.prems(2) q1' e1]
  obtain p' where p': "increase_all28 ?p1 calls = Inr p'" "0 \<le> quantity p'"
    "calls \<noteq> [] \<longrightarrow> 0 < quantity p'"
    "quantity p' = 0 \<or>
       (lo_factor ^ (Suc k + length calls) * lo \<le> entry_price p' \<and>
        entry_price p' \<le> hi_factor ^ (Suc k + length calls) * hi)"
    by blast
  have pos: "0 < quantity p'"
  proof (cases calls)
    case Nil
    with p'(1) q1 show ?thesis by simp
  next
    case (Cons x xs)
    with p'(3) show ?thesis by simp
  qed
  show ?case using p' pos inc c by simp
qed

text \<open>
  Claim C7, as the code has it. After any sequence of valid calls
  \<^verbatim>\<open>increase(qty, price)\<close> (each with \<open>qty > 0\<close> and \<open>price > 0\<close>) from a flat position,
  every call returns, and one more valid call sets the entry price to
  \<open>(oldQty * oldEntry + qty * price) / (oldQty + qty)\<close> with each of its five operations
  rounded to 28 significant digits, and the quantity to \<open>oldQty + qty\<close> rounded.
  Consequently after \<open>n\<close> calls the entry price lies between the least of the prices
  contributed so far times \<open>lo_factor\<^sup>n\<close> and the greatest of them times
  \<open>hi_factor\<^sup>n\<close>, where \<open>lo_factor = (1 - u)\<^sup>3 / (1 + u)\<close>,
  \<open>hi_factor = (1 + u)\<^sup>3 / (1 - u)\<close> and \<open>u = 5 / 10\<^sup>2\<^sup>8\<close>.
\<close>

theorem increase28_sequence_spec:
  assumes valid: "\<forall>c\<in>set calls. 0 < fst c \<and> 0 < snd c"
    and flat: "quantity p0 = 0" "entry_price p0 = 0"
  shows "\<exists>p. increase_all28 p0 calls = Inr p \<and>
           (calls \<noteq> [] \<longrightarrow>
              lo_factor ^ length calls * Min (snd ` set calls) \<le> entry_price p \<and>
              entry_price p \<le> hi_factor ^ length calls * Max (snd ` set calls)) \<and>
           (\<forall>qty price. 0 < qty \<and> 0 < price \<longrightarrow>
              increase28 p qty price =
                Inr (p\<lparr>entry_price :=
                         round28 (add28 (mul28 (quantity p) (entry_price p)) (mul28 qty price) /
                                  add28 (quantity p) qty),
                       quantity := add28 (quantity p) qty\<rparr>))"
proof (cases calls)
  case Nil
  then show ?thesis using flat by (simp add: increase28_value)
next
  case (Cons c rest)
  let ?lo = "Min (snd ` set calls)" and ?hi = "Max (snd ` set calls)"
  have cin: "c \<in> set calls" using Cons by simp
  have rng: "\<forall>c\<in>set calls. ?lo \<le> snd c \<and> snd c \<le> ?hi" by simp
  have "?lo \<in> snd ` set calls" using Cons by (intro Min_in) simp_all
  then have lo0: "0 < ?lo" using valid by auto
  have v: "\<forall>c\<in>set calls. 0 < fst c \<and> ?lo \<le> snd c \<and> snd c \<le> ?hi"
    using valid rng by blast
  have q0: "0 \<le> quantity p0" using flat by simp
  have e0: "quantity p0 = 0 \<or>
         (lo_factor ^ 0 * ?lo \<le> entry_price p0 \<and> entry_price p0 \<le> hi_factor ^ 0 * ?hi)"
    using flat by simp
  from increase_all28_bounds [OF v lo0 q0 e0]
  obtain p where p: "increase_all28 p0 calls = Inr p" "0 \<le> quantity p"
    "calls \<noteq> [] \<longrightarrow> 0 < quantity p"
    "quantity p = 0 \<or>
       (lo_factor ^ (0 + length calls) * ?lo \<le> entry_price p \<and>
        entry_price p \<le> hi_factor ^ (0 + length calls) * ?hi)"
    by blast
  have pos: "0 < quantity p" using p(3) Cons by simp
  have b: "lo_factor ^ length calls * ?lo \<le> entry_price p \<and>
           entry_price p \<le> hi_factor ^ length calls * ?hi"
    using p(4) pos by simp
  have "\<forall>qty price. 0 < qty \<and> 0 < price \<longrightarrow>
              increase28 p qty price =
                Inr (p\<lparr>entry_price :=
                         round28 (add28 (mul28 (quantity p) (entry_price p)) (mul28 qty price) /
                                  add28 (quantity p) qty),
                       quantity := add28 (quantity p) qty\<rparr>)"
    using p(2) by (simp add: increase28_value)
  with p(1) b show ?thesis by blast
qed

theorem increase28_sequence_spec_witness:
  "increase_all28 Position [(1, 100), (1, 110)] =
     Inr \<lparr>side = 0, quantity = 2, entry_price = 105, leverage = 1\<rparr> \<and>
   Min (snd ` set [(1::rat, 100::rat), (1, 110)]) = 100 \<and>
   Max (snd ` set [(1::rat, 100::rat), (1, 110)]) = 110"
  using increase28_sequence_spec [of "[(1, 100), (1, 110)]" Position]
  by (simp add: Position_def increase28_def div28_def add28_def mul28_def round28_numeral)

text \<open>
  The entry price can leave the range of the prices: one call with quantity 3 at the
  price 9.999999999999999999999999999 from a flat position gives the entry price 10.
\<close>

lemma round28_example_product:
  "round28 (29999999999999999999999999997 / 1000000000000000000000000000) = 30"
proof -
  have "round28 (29999999999999999999999999997 / 1000000000000000000000000000) =
        of_int 3000000000000000000000000000 * 10 powi (1 - 27)"
    by (rule round28_eqI) (simp_all add: power_int_minus_divide)
  then show ?thesis by (simp add: power_int_minus_divide)
qed

theorem increase28_entry_above_price:
  "increase_all28 Position [(3, 9999999999999999999999999999 / 10 ^ 27)] =
     Inr \<lparr>side = 0, quantity = 3, entry_price = 10, leverage = 1\<rparr> \<and>
   Max (snd ` set [(3::rat, 9999999999999999999999999999 / 10 ^ 27 :: rat)]) < 10"
  by (simp add: Position_def increase28_def div28_def add28_def mul28_def round28_numeral
      round28_example_product)

text \<open>Where no operation rounds, the two embeddings of \<^verbatim>\<open>increase\<close> agree.\<close>

lemma increase28_exact:
  assumes "exact28 (quantity p * entry_price p)" and "exact28 (qty * price)"
    and "exact28 (quantity p * entry_price p + qty * price)"
    and "exact28 (quantity p + qty)"
    and "exact28 ((quantity p * entry_price p + qty * price) / (quantity p + qty))"
  shows "increase28 p qty price = increase p qty price"
  using assms
  by (simp add: increase28_def increase_def div28_def dec_div_def add28_def mul28_def
      exact28_def)

end
